theory Spec2Isabelle
  imports Main
begin

section \<open>Data model (types/patch.ts)\<close>

text \<open>
  The TypeScript types are plain immutable objects. A string is a \<open>string\<close>; the optional
  field \<open>value?: unknown\<close> is an \<open>option\<close> over a type parameter, since the merge never
  inspects it.
\<close>

datatype PatchOperation = add | remove | replace

record 'v Patch =
  op :: PatchOperation
  path :: string
  "value" :: "'v option"
  hash :: string

record ConflictDetail =
  path :: string
  options :: "string list"

record ConflictResolution =
  path :: string
  selectedHash :: string

type_synonym ConflictResolutions = "ConflictResolution list"

type_synonym UnresolvedConflicts = "string list"

record 'v CustomConflictResolution =
  path :: string
  patch :: "'v Patch"

type_synonym 'v CustomConflictResolutions = "'v CustomConflictResolution list"

section \<open>The JavaScript \<open>Set\<close>\<close>

text \<open>
  A JavaScript \<open>Set\<close> remembers insertion order and \<open>add\<close> of a member already present
  changes nothing; \<open>Array.from\<close> lists the members in insertion order. The model is the
  list of members in insertion order.
\<close>

definition Set_add :: "'a list \<Rightarrow> 'a \<Rightarrow> 'a list" where
  "Set_add s x = (if x \<in> set s then s else s @ [x])"

section \<open>The conflict-resolution module\<close>

definition findMatchingPatch :: "'v Patch list \<Rightarrow> string \<Rightarrow> 'v Patch option" where
  "findMatchingPatch patches optionHash = List.find (\<lambda>p. hash p = optionHash) patches"

text \<open>
  The body of \<open>conflicts.forEach\<close> in \<open>resolveConflicts\<close>, with the set
  \<open>includedPatches\<close> passed in and returned. The test
  \<open>resolution && conflict.options.includes(resolution.selectedHash)\<close> is the \<open>case\<close>
  on the result of \<open>find\<close>; \<open>the resolution\<close> is read only where that test holds.
\<close>

definition conflictStep ::
  "'v Patch list \<Rightarrow> ConflictResolutions \<Rightarrow> 'v Patch list \<Rightarrow> ConflictDetail \<Rightarrow> 'v Patch list" where
  "conflictStep patches resolutions includedPatches conflict =
     (let resolution =
        List.find (\<lambda>res. ConflictResolution.path res = ConflictDetail.path conflict) resolutions
      in
      if (case resolution of None \<Rightarrow> False
          | Some res \<Rightarrow> selectedHash res \<in> set (options conflict)) then
        (case findMatchingPatch patches (selectedHash (the resolution)) of
           None \<Rightarrow> includedPatches
         | Some matchingPatch \<Rightarrow> Set_add includedPatches matchingPatch)
      else if length (options conflict) > 0 then
        (let defaultHash = options conflict ! 0 in
         case findMatchingPatch patches defaultHash of
           None \<Rightarrow> includedPatches
         | Some matchingPatch \<Rightarrow> Set_add includedPatches matchingPatch)
      else includedPatches)"

text \<open>
  \<open>resolveConflicts\<close>. The default \<open>customResolutions = []\<close> of the source is the
  caller passing \<open>[]\<close>.
\<close>

definition resolveConflicts ::
  "'v Patch list \<Rightarrow> ConflictDetail list \<Rightarrow> ConflictResolutions
     \<Rightarrow> 'v CustomConflictResolutions \<Rightarrow> 'v Patch list" where
  "resolveConflicts patches conflicts resolutions customResolutions =
     (if length conflicts = 0 then patches
      else
        let includedPatches = foldl (conflictStep patches resolutions) [] conflicts;
            conflictPaths = set (map ConflictDetail.path conflicts);
            nonConflictPatches = filter (\<lambda>p. Patch.path p \<notin> conflictPaths) patches
        in nonConflictPatches @ includedPatches @
           (if length customResolutions > 0 then map patch customResolutions else []))"

record 'v ResolvedPatch =
  unresolvedConflicts :: UnresolvedConflicts
  resolvedPatches :: "'v Patch list"

text \<open>The body of \<open>conflicts.forEach\<close> in \<open>generateResolvedPatch\<close>.\<close>

definition unresolvedStep ::
  "ConflictResolutions \<Rightarrow> string list \<Rightarrow> ConflictDetail \<Rightarrow> string list" where
  "unresolvedStep resolutions unresolvedHashes conflict =
     (let resolution =
        List.find (\<lambda>r. ConflictResolution.path r = ConflictDetail.path conflict) resolutions
      in
      if resolution = None then foldl Set_add unresolvedHashes (options conflict)
      else unresolvedHashes)"

definition generateResolvedPatch ::
  "'v Patch list list \<Rightarrow> ConflictDetail list \<Rightarrow> ConflictResolutions
     \<Rightarrow> 'v CustomConflictResolutions \<Rightarrow> 'v ResolvedPatch" where
  "generateResolvedPatch patches conflicts resolutions customResolutions =
     (let allPatches = concat patches in
      if length allPatches = 0 then \<lparr>unresolvedConflicts = [], resolvedPatches = []\<rparr>
      else if length conflicts = 0 then
        \<lparr>unresolvedConflicts = [], resolvedPatches = allPatches\<rparr>
      else
        let unresolvedHashes = foldl (unresolvedStep resolutions) [] conflicts;
            resolved = resolveConflicts allPatches conflicts resolutions customResolutions
        in \<lparr>unresolvedConflicts = unresolvedHashes, resolvedPatches = resolved\<rparr>)"

text \<open>
  \<open>initializeResolutions\<close>: \<open>filter\<close>, then \<open>map\<close>. \<open>options[0]\<close> is read only on
  conflicts that passed the filter.
\<close>

definition initializeResolutions :: "ConflictDetail list \<Rightarrow> ConflictResolutions" where
  "initializeResolutions conflicts =
     map (\<lambda>conflict. \<lparr>ConflictResolution.path = ConflictDetail.path conflict,
                       selectedHash = options conflict ! 0\<rparr>)
       (filter (\<lambda>conflict. length (options conflict) > 0) conflicts)"

section \<open>Notions used to state the properties\<close>

text \<open>
  The definitions of this section are not code of the module: they put the words of the
  specification into HOL, to be compared with the functions above.
\<close>

text \<open>A list without its repetitions: each element stays where it first occurs.\<close>

fun firstOccurrences :: "'a list \<Rightarrow> 'a list" where
  "firstOccurrences [] = []"
| "firstOccurrences (x # xs) = x # firstOccurrences (filter (\<lambda>y. y \<noteq> x) xs)"

text \<open>The positional default of a conflict: its first option, when it has one.\<close>

definition firstOption :: "ConflictDetail \<Rightarrow> string option" where
  "firstOption conflict = (case options conflict of [] \<Rightarrow> None | h # _ \<Rightarrow> Some h)"

text \<open>
  The hash the merge looks up for a conflict (specification, 4.2 step 2): the hash selected
  by the resolution found for the conflict's path (the first one in \<open>resolutions\<close> with
  that path) when that hash is among the options, the first option otherwise.
\<close>

definition chosenHash :: "ConflictResolutions \<Rightarrow> ConflictDetail \<Rightarrow> string option" where
  "chosenHash resolutions conflict =
     (case List.find (\<lambda>res. ConflictResolution.path res = ConflictDetail.path conflict)
             resolutions of
        None \<Rightarrow> firstOption conflict
      | Some res \<Rightarrow>
          if selectedHash res \<in> set (options conflict) then Some (selectedHash res)
          else firstOption conflict)"

text \<open>The patch selected for a conflict: the first input patch with the chosen hash.\<close>

definition chosenPatch ::
  "'v Patch list \<Rightarrow> ConflictResolutions \<Rightarrow> ConflictDetail \<Rightarrow> 'v Patch option" where
  "chosenPatch patches resolutions conflict =
     (case chosenHash resolutions conflict of
        None \<Rightarrow> None
      | Some h \<Rightarrow> findMatchingPatch patches h)"

text \<open>
  The default resolutions in the specification's words (4.4): one resolution per conflict
  with a first option, selecting it, in the order of the conflicts.
\<close>

fun defaultResolutions_spec :: "ConflictDetail list \<Rightarrow> ConflictResolutions" where
  "defaultResolutions_spec [] = []"
| "defaultResolutions_spec (c # cs) =
     (case options c of
        [] \<Rightarrow> defaultResolutions_spec cs
      | h # _ \<Rightarrow> \<lparr>ConflictResolution.path = ConflictDetail.path c, selectedHash = h\<rparr>
                 # defaultResolutions_spec cs)"

text \<open>
  The resolutions fed back from a merge (specification, section 8, idempotence): for each
  conflict for which the merge selected a patch, the conflict's path with the hash of that
  patch. A conflict for which the merge selected no patch yields no resolution.
\<close>

definition feedbackResolutions ::
  "'v Patch list \<Rightarrow> ConflictDetail list \<Rightarrow> ConflictResolutions \<Rightarrow> ConflictResolutions" where
  "feedbackResolutions patches conflicts resolutions =
     List.map_filter
       (\<lambda>c. map_option
              (\<lambda>p. \<lparr>ConflictResolution.path = ConflictDetail.path c, selectedHash = hash p\<rparr>)
              (chosenPatch patches resolutions c))
       conflicts"

section \<open>Object identity\<close>

text \<open>
  \<open>Set<Patch>\<close> compares objects by reference, the model above by their fields. This
  section repeats \<open>resolveConflicts\<close> over references into a heap of patch objects,
  with the set \<open>includedPatches\<close> a set of references; theorem
  \<open>resolveConflicts_ref_deref\<close> below shows that reading the returned references in
  the heap gives the list the model above returns, for every heap and also when several
  references hold equal objects.
\<close>

type_synonym ref = nat

record CustomConflictResolution_ref =
  path :: string
  patch_ref :: ref

definition findMatchingPatch_ref ::
  "(ref \<Rightarrow> 'v Patch) \<Rightarrow> ref list \<Rightarrow> string \<Rightarrow> ref option" where
  "findMatchingPatch_ref heap patches optionHash =
     List.find (\<lambda>p. hash (heap p) = optionHash) patches"

definition conflictStep_ref ::
  "(ref \<Rightarrow> 'v Patch) \<Rightarrow> ref list \<Rightarrow> ConflictResolutions \<Rightarrow> ref list \<Rightarrow> ConflictDetail
     \<Rightarrow> ref list" where
  "conflictStep_ref heap patches resolutions includedPatches conflict =
     (let resolution =
        List.find (\<lambda>res. ConflictResolution.path res = ConflictDetail.path conflict) resolutions
      in
      if (case resolution of None \<Rightarrow> False
          | Some res \<Rightarrow> selectedHash res \<in> set (options conflict)) then
        (case findMatchingPatch_ref heap patches (selectedHash (the resolution)) of
           None \<Rightarrow> includedPatches
         | Some matchingPatch \<Rightarrow> Set_add includedPatches matchingPatch)
      else if length (options conflict) > 0 then
        (let defaultHash = options conflict ! 0 in
         case findMatchingPatch_ref heap patches defaultHash of
           None \<Rightarrow> includedPatches
         | Some matchingPatch \<Rightarrow> Set_add includedPatches matchingPatch)
      else includedPatches)"

definition resolveConflicts_ref ::
  "(ref \<Rightarrow> 'v Patch) \<Rightarrow> ref list \<Rightarrow> ConflictDetail list \<Rightarrow> ConflictResolutions
     \<Rightarrow> CustomConflictResolution_ref list \<Rightarrow> ref list" where
  "resolveConflicts_ref heap patches conflicts resolutions customResolutions =
     (if length conflicts = 0 then patches
      else
        let includedPatches = foldl (conflictStep_ref heap patches resolutions) [] conflicts;
            conflictPaths = set (map ConflictDetail.path conflicts);
            nonConflictPatches = filter (\<lambda>p. Patch.path (heap p) \<notin> conflictPaths) patches
        in nonConflictPatches @ includedPatches @
           (if length customResolutions > 0 then map patch_ref customResolutions else []))"

definition deref_custom ::
  "(ref \<Rightarrow> 'v Patch) \<Rightarrow> CustomConflictResolution_ref \<Rightarrow> 'v CustomConflictResolution" where
  "deref_custom heap cr =
     \<lparr>CustomConflictResolution.path = CustomConflictResolution_ref.path cr,
      patch = heap (patch_ref cr)\<rparr>"

definition chosenRef ::
  "(ref \<Rightarrow> 'v Patch) \<Rightarrow> ref list \<Rightarrow> ConflictResolutions \<Rightarrow> ConflictDetail \<Rightarrow> ref option" where
  "chosenRef heap patches resolutions conflict =
     (case chosenHash resolutions conflict of
        None \<Rightarrow> None
      | Some h \<Rightarrow> findMatchingPatch_ref heap patches h)"

section \<open>Example data\<close>

text \<open>
  The patches, conflict and resolutions of the specification's examples (section 8), and a
  few more of the same shape.
\<close>

definition pA1 :: "nat Patch" where
  "pA1 = \<lparr>op = add, Patch.path = ''/a'', value = Some 1, hash = ''h1''\<rparr>"

definition pA2 :: "nat Patch" where
  "pA2 = \<lparr>op = add, Patch.path = ''/a'', value = Some 2, hash = ''h2''\<rparr>"

definition pB3 :: "nat Patch" where
  "pB3 = \<lparr>op = replace, Patch.path = ''/b'', value = Some 3, hash = ''h3''\<rparr>"

definition pA4 :: "nat Patch" where
  "pA4 = \<lparr>op = remove, Patch.path = ''/a'', value = None, hash = ''h4''\<rparr>"

definition pD5 :: "nat Patch" where
  "pD5 = \<lparr>op = add, Patch.path = ''/d'', value = Some 5, hash = ''h5''\<rparr>"

definition cA :: ConflictDetail where
  "cA = \<lparr>ConflictDetail.path = ''/a'', options = [''h1'', ''h2'']\<rparr>"


definition cA21 :: ConflictDetail where
  "cA21 = \<lparr>ConflictDetail.path = ''/a'', options = [''h2'', ''h1'']\<rparr>"

definition cC0 :: ConflictDetail where
  "cC0 = \<lparr>ConflictDetail.path = ''/c'', options = []\<rparr>"

definition rA1 :: ConflictResolution where
  "rA1 = \<lparr>ConflictResolution.path = ''/a'', selectedHash = ''h1''\<rparr>"

definition rA2 :: ConflictResolution where
  "rA2 = \<lparr>ConflictResolution.path = ''/a'', selectedHash = ''h2''\<rparr>"

definition rA4 :: ConflictResolution where
  "rA4 = \<lparr>ConflictResolution.path = ''/a'', selectedHash = ''h4''\<rparr>"

definition rA9 :: ConflictResolution where
  "rA9 = \<lparr>ConflictResolution.path = ''/a'', selectedHash = ''h9''\<rparr>"

definition crA :: "nat CustomConflictResolution" where
  "crA = \<lparr>CustomConflictResolution.path = ''/a'',
           patch = \<lparr>op = replace, Patch.path = ''/a'', value = Some 7, hash = ''h7''\<rparr>\<rparr>"


definition crD :: "nat CustomConflictResolution" where
  "crD = \<lparr>CustomConflictResolution.path = ''/d'', patch = pD5\<rparr>"

section \<open>The set as a list\<close>

lemma set_Set_add: "set (Set_add s x) = insert x (set s)"
  by (auto simp: Set_add_def)

lemma set_foldl_Set_add: "set (foldl Set_add s xs) = set s \<union> set xs"
  by (induction xs arbitrary: s) (auto simp: set_Set_add)

lemma distinct_foldl_Set_add: "distinct s \<Longrightarrow> distinct (foldl Set_add s xs)"
  by (induction xs arbitrary: s) (auto simp: Set_add_def)

lemma set_firstOccurrences: "set (firstOccurrences xs) = set xs"
  by (induction xs rule: firstOccurrences.induct) auto

lemma distinct_firstOccurrences: "distinct (firstOccurrences xs)"
  by (induction xs rule: firstOccurrences.induct) (auto simp: set_firstOccurrences)

lemma filter_neq_absent: "a \<notin> set xs \<Longrightarrow> filter (\<lambda>y. y \<noteq> a) xs = xs"
  by (induction xs) auto

lemma firstOccurrences_distinct_id: "distinct xs \<Longrightarrow> firstOccurrences xs = xs"
  by (induction xs) (auto simp: filter_neq_absent)

text \<open>Adding the elements of a list to a set, one after the other, in insertion order.\<close>

lemma foldl_Set_add_firstOccurrences:
  "foldl Set_add s xs = s @ firstOccurrences (filter (\<lambda>x. x \<notin> set s) xs)"
proof (induction xs arbitrary: s)
  case Nil
  then show ?case by simp
next
  case (Cons x xs)
  show ?case
  proof (cases "x \<in> set s")
    case True
    then have "Set_add s x = s" by (simp add: Set_add_def)
    with True show ?thesis by (simp add: Cons.IH)
  next
    case False
    then have add: "Set_add s x = s @ [x]" by (simp add: Set_add_def)
    have "filter (\<lambda>y. y \<noteq> x) (filter (\<lambda>y. y \<notin> set s) xs) =
          filter (\<lambda>y. y \<notin> set (s @ [x])) xs"
      by (auto intro: filter_cong)
    with False add show ?thesis by (simp add: Cons.IH)
  qed
qed

lemma set_map_filter:
  "x \<in> set (List.map_filter f xs) \<longleftrightarrow> (\<exists>y\<in>set xs. f y = Some x)"
  by (induction xs) (auto split: option.splits)

lemma map_filter_cong_set:
  "(\<And>x. x \<in> set xs \<Longrightarrow> f x = g x) \<Longrightarrow> List.map_filter f xs = List.map_filter g xs"
  by (induction xs) (auto split: option.splits)

lemma map_filter_map_option:
  "List.map_filter (\<lambda>x. map_option f (g x)) xs = map f (List.map_filter g xs)"
  by (induction xs) (auto split: option.splits)

section \<open>The loop over the conflicts\<close>

text \<open>Each round of the loop adds the patch selected for its conflict, if there is one.\<close>

lemma conflictStep_chosen:
  "conflictStep patches resolutions included conflict =
     (case chosenPatch patches resolutions conflict of
        None \<Rightarrow> included
      | Some p \<Rightarrow> Set_add included p)"
  by (auto simp: conflictStep_def chosenPatch_def chosenHash_def firstOption_def Let_def nth_Cons'
      split: option.splits list.splits)

lemma foldl_conflictStep:
  "foldl (conflictStep patches resolutions) s conflicts =
     foldl Set_add s (List.map_filter (chosenPatch patches resolutions) conflicts)"
  by (induction conflicts arbitrary: s)
     (auto simp: conflictStep_chosen split: option.splits)

lemma resolveConflicts_segments_aux:
  "conflicts \<noteq> [] \<Longrightarrow>
   resolveConflicts patches conflicts resolutions customResolutions =
     filter (\<lambda>p. Patch.path p \<notin> set (map ConflictDetail.path conflicts)) patches @
     firstOccurrences (List.map_filter (chosenPatch patches resolutions) conflicts) @
     map patch customResolutions"
  by (simp add: resolveConflicts_def Let_def foldl_conflictStep foldl_Set_add_firstOccurrences)

lemma find_hash: "List.find (\<lambda>p. hash p = h) ps = Some p \<Longrightarrow> hash p = h \<and> p \<in> set ps"
  by (auto simp: find_Some_iff)

lemma chosenHash_in_options:
  "chosenHash resolutions conflict = Some h \<Longrightarrow> h \<in> set (options conflict)"
  by (auto simp: chosenHash_def firstOption_def split: option.splits list.splits if_splits)

lemma chosenPatch_props:
  "chosenPatch patches resolutions conflict = Some p \<Longrightarrow>
     p \<in> set patches \<and> hash p \<in> set (options conflict) \<and>
     findMatchingPatch patches (hash p) = Some p"
  by (auto simp: chosenPatch_def findMatchingPatch_def split: option.splits
      dest: chosenHash_in_options find_hash)

lemma chosenPatch_in_output:
  assumes "conflict \<in> set conflicts" and "chosenPatch patches resolutions conflict = Some p"
  shows "p \<in> set (resolveConflicts patches conflicts resolutions customResolutions)"
proof -
  from assms(1) have ne: "conflicts \<noteq> []" by auto
  from assms have "p \<in> set (List.map_filter (chosenPatch patches resolutions) conflicts)"
    unfolding set_map_filter by blast
  then show ?thesis
    by (simp add: resolveConflicts_segments_aux[OF ne] set_firstOccurrences)
qed

lemma map_path_chosen:
  assumes "\<forall>c\<in>set conflicts. \<forall>p\<in>set patches.
             hash p \<in> set (options c) \<longrightarrow> Patch.path p = ConflictDetail.path c"
  shows "map Patch.path (List.map_filter (chosenPatch patches resolutions) conflicts) =
         map ConflictDetail.path
           (filter (\<lambda>c. chosenPatch patches resolutions c \<noteq> None) conflicts)"
  using assms
proof (induction conflicts)
  case Nil
  then show ?case by simp
next
  case (Cons c cs)
  show ?case
  proof (cases "chosenPatch patches resolutions c")
    case None
    with Cons show ?thesis by simp
  next
    case (Some p)
    from chosenPatch_props[OF Some] Cons.prems have "Patch.path p = ConflictDetail.path c"
      by simp
    with Some Cons show ?thesis by simp
  qed
qed

lemma set_foldl_unresolvedStep:
  "set (foldl (unresolvedStep resolutions) s conflicts) =
     set s \<union> {h. \<exists>c\<in>set conflicts. h \<in> set (options c) \<and>
                  \<not> (\<exists>r\<in>set resolutions. ConflictResolution.path r = ConflictDetail.path c)}"
proof (induction conflicts arbitrary: s)
  case Nil
  then show ?case by simp
next
  case (Cons c cs)
  show ?case
  proof (cases "\<exists>r\<in>set resolutions. ConflictResolution.path r = ConflictDetail.path c")
    case True
    then have "unresolvedStep resolutions s c = s"
      by (auto simp: unresolvedStep_def Let_def find_None_iff)
    with True show ?thesis by (auto simp: Cons.IH)
  next
    case False
    then have "unresolvedStep resolutions s c = foldl Set_add s (options c)"
      by (auto simp: unresolvedStep_def Let_def find_None_iff)
    with False show ?thesis by (auto simp: Cons.IH set_foldl_Set_add)
  qed
qed

section \<open>Resolutions fed back\<close>

lemma find_path_map_filter:
  assumes "distinct (map ConflictDetail.path cs)" and "c \<in> set cs"
    and "\<And>c r. g c = Some r \<Longrightarrow> ConflictResolution.path r = ConflictDetail.path c"
  shows "List.find (\<lambda>r. ConflictResolution.path r = ConflictDetail.path c)
           (List.map_filter g cs) = g c"
  using assms(1,2)
proof (induction cs)
  case Nil
  then show ?case by simp
next
  case (Cons d ds)
  show ?case
  proof (cases "d = c")
    case True
    show ?thesis
    proof (cases "g c")
      case None
      have "ConflictResolution.path r \<noteq> ConflictDetail.path c"
        if "r \<in> set (List.map_filter g ds)" for r
      proof -
        from that obtain e where e: "e \<in> set ds" "g e = Some r"
          unfolding set_map_filter by blast
        then have "ConflictResolution.path r = ConflictDetail.path e" using assms(3) by blast
        moreover have "ConflictDetail.path e \<noteq> ConflictDetail.path c"
          using Cons.prems(1) True e(1) by (auto simp: image_iff)
        ultimately show ?thesis by simp
      qed
      then have "List.find (\<lambda>r. ConflictResolution.path r = ConflictDetail.path c)
                   (List.map_filter g ds) = None"
        by (auto simp: find_None_iff)
      with None True show ?thesis by simp
    next
      case (Some r)
      then have "ConflictResolution.path r = ConflictDetail.path c" using assms(3) by blast
      with Some True show ?thesis by simp
    qed
  next
    case False
    then have cin: "c \<in> set ds" using Cons.prems(2) by simp
    have dist: "distinct (map ConflictDetail.path ds)" using Cons.prems(1) by simp
    have neq: "ConflictDetail.path d \<noteq> ConflictDetail.path c"
      using Cons.prems(1) cin by auto
    show ?thesis
    proof (cases "g d")
      case None
      then show ?thesis using Cons.IH[OF dist cin] by simp
    next
      case (Some r)
      then have "ConflictResolution.path r = ConflictDetail.path d" using assms(3) by blast
      with Some neq show ?thesis using Cons.IH[OF dist cin] by simp
    qed
  qed
qed

text \<open>
  With the resolutions fed back, a conflict selects the patch it selected before, when the
  conflicts have distinct paths and a resolution naming one of the conflict's options names
  a patch of the input.
\<close>

lemma chosenPatch_feedback:
  assumes dist: "distinct (map ConflictDetail.path conflicts)"
    and cin: "c \<in> set conflicts"
    and hit: "\<And>r. List.find (\<lambda>res. ConflictResolution.path res = ConflictDetail.path c)
                    resolutions = Some r
               \<Longrightarrow> selectedHash r \<in> set (options c)
               \<Longrightarrow> findMatchingPatch patches (selectedHash r) \<noteq> None"
  shows "chosenPatch patches (feedbackResolutions patches conflicts resolutions) c =
         chosenPatch patches resolutions c"
proof -
  let ?g = "\<lambda>c. map_option
              (\<lambda>p. \<lparr>ConflictResolution.path = ConflictDetail.path c, selectedHash = hash p\<rparr>)
              (chosenPatch patches resolutions c)"
  have look: "List.find (\<lambda>r. ConflictResolution.path r = ConflictDetail.path c)
                (feedbackResolutions patches conflicts resolutions) = ?g c"
    unfolding feedbackResolutions_def
    by (rule find_path_map_filter[OF dist cin]) auto
  show ?thesis
  proof (cases "chosenPatch patches resolutions c")
    case None
    then have l: "List.find (\<lambda>r. ConflictResolution.path r = ConflictDetail.path c)
                (feedbackResolutions patches conflicts resolutions) = None"
      using look by simp
    from None hit
    have "(case firstOption c of None \<Rightarrow> None | Some h \<Rightarrow> findMatchingPatch patches h) = None"
      by (auto simp: chosenPatch_def chosenHash_def split: option.splits if_splits)
    with None l show ?thesis by (simp add: chosenPatch_def chosenHash_def)
  next
    case (Some p)
    then have l: "List.find (\<lambda>r. ConflictResolution.path r = ConflictDetail.path c)
                (feedbackResolutions patches conflicts resolutions) =
                Some \<lparr>ConflictResolution.path = ConflictDetail.path c, selectedHash = hash p\<rparr>"
      using look by simp
    from chosenPatch_props[OF Some] l Some show ?thesis
      by (simp add: chosenPatch_def chosenHash_def)
  qed
qed

section \<open>References and values\<close>

lemma find_map_heap:
  "List.find P (map f xs) = map_option f (List.find (\<lambda>x. P (f x)) xs)"
  by (induction xs) auto

lemma conflictStep_ref_chosen:
  "conflictStep_ref heap patches resolutions included conflict =
     (case chosenRef heap patches resolutions conflict of
        None \<Rightarrow> included
      | Some r \<Rightarrow> Set_add included r)"
  by (auto simp: conflictStep_ref_def chosenRef_def chosenHash_def firstOption_def Let_def
      nth_Cons' split: option.splits list.splits)

lemma foldl_conflictStep_ref:
  "foldl (conflictStep_ref heap patches resolutions) s conflicts =
     foldl Set_add s (List.map_filter (chosenRef heap patches resolutions) conflicts)"
  by (induction conflicts arbitrary: s)
     (auto simp: conflictStep_ref_chosen split: option.splits)

lemma chosenPatch_deref:
  "chosenPatch (map heap patches) resolutions conflict =
     map_option heap (chosenRef heap patches resolutions conflict)"
  by (simp add: chosenPatch_def chosenRef_def findMatchingPatch_def findMatchingPatch_ref_def
      find_map_heap split: option.splits)

lemma find_ref_hash:
  "List.find (\<lambda>p. hash (heap p) = h) ps = Some r \<Longrightarrow> hash (heap r) = h"
  by (induction ps) (auto split: if_splits)

text \<open>A selected reference is the first one in the input whose object has its hash.\<close>

lemma chosenRef_first:
  assumes "chosenRef heap patches resolutions conflict = Some r"
  shows "findMatchingPatch_ref heap patches (hash (heap r)) = Some r"
proof (cases "chosenHash resolutions conflict")
  case None
  with assms show ?thesis by (simp add: chosenRef_def)
next
  case (Some h)
  with assms have h: "List.find (\<lambda>p. hash (heap p) = h) patches = Some r"
    by (simp add: chosenRef_def findMatchingPatch_ref_def)
  from find_ref_hash[OF h] h show ?thesis by (simp add: findMatchingPatch_ref_def)
qed

text \<open>
  Hence two selected references that hold equal objects are the same reference: on the
  members of \<open>includedPatches\<close>, equality of references and of objects agree.
\<close>

lemma chosenRef_inj:
  "inj_on heap (set (List.map_filter (chosenRef heap patches resolutions) conflicts))"
proof (rule inj_onI)
  fix r r'
  assume "r \<in> set (List.map_filter (chosenRef heap patches resolutions) conflicts)"
    and "r' \<in> set (List.map_filter (chosenRef heap patches resolutions) conflicts)"
    and eq: "heap r = heap r'"
  then obtain c c' where c: "chosenRef heap patches resolutions c = Some r"
    and c': "chosenRef heap patches resolutions c' = Some r'"
    unfolding set_map_filter by blast
  have "findMatchingPatch_ref heap patches (hash (heap r)) = Some r"
    by (rule chosenRef_first[OF c])
  moreover have "findMatchingPatch_ref heap patches (hash (heap r')) = Some r'"
    by (rule chosenRef_first[OF c'])
  ultimately have "Some r = Some r'" unfolding eq by (rule trans[OF sym])
  then show "r = r'" by simp
qed

lemma map_foldl_Set_add:
  "inj_on f (set s \<union> set xs) \<Longrightarrow>
     map f (foldl Set_add s xs) = foldl Set_add (map f s) (map f xs)"
proof (induction xs arbitrary: s)
  case Nil
  then show ?case by simp
next
  case (Cons x xs)
  have mem: "f x \<in> f ` set s \<longleftrightarrow> x \<in> set s"
    using Cons.prems by (auto simp: inj_on_def)
  then have step: "map f (Set_add s x) = Set_add (map f s) (f x)"
    by (simp add: Set_add_def)
  have "inj_on f (set (Set_add s x) \<union> set xs)"
    using Cons.prems by (simp add: set_Set_add insert_commute Un_commute)
  from Cons.IH[OF this] step show ?case by simp
qed

text \<open>
  The merge over references returns references to the patches that the merge over values
  returns, in the same order.
\<close>

theorem resolveConflicts_ref_deref:
  "map heap (resolveConflicts_ref heap patches conflicts resolutions customResolutions) =
     resolveConflicts (map heap patches) conflicts resolutions
       (map (deref_custom heap) customResolutions)"
proof (cases "conflicts = []")
  case True
  then show ?thesis by (simp add: resolveConflicts_ref_def resolveConflicts_def)
next
  case False
  have ch: "chosenPatch (map heap patches) resolutions =
        (\<lambda>c. map_option heap (chosenRef heap patches resolutions c))"
    by (rule ext) (rule chosenPatch_deref)
  have inc: "map heap (foldl (conflictStep_ref heap patches resolutions) [] conflicts) =
        foldl (conflictStep (map heap patches) resolutions) [] conflicts"
    using chosenRef_inj[of heap patches resolutions conflicts]
    by (simp add: foldl_conflictStep_ref foldl_conflictStep map_foldl_Set_add
        ch map_filter_map_option)
  have cust: "map heap (map patch_ref customResolutions) =
        map patch (map (deref_custom heap) customResolutions)"
    by (simp add: deref_custom_def)
  from False inc cust show ?thesis
    by (simp add: resolveConflicts_ref_def resolveConflicts_def Let_def filter_map comp_def)
qed

section \<open>Paths in the merged list\<close>

text \<open>
  C1 (as amended): if the input patches at non-conflict paths have pairwise distinct paths,
  the conflicts have pairwise distinct paths, every input patch whose hash is an option of
  a conflict has that conflict's path, and the custom patches have pairwise distinct paths
  of which none is the path of an input patch, then no two patches in the list returned
  by \<open>resolveConflicts\<close> have the same path.
\<close>

theorem resolveConflicts_distinct_paths:
  assumes nonconf: "distinct (map Patch.path
             (filter (\<lambda>p. Patch.path p \<notin> set (map ConflictDetail.path conflicts)) patches))"
    and confs: "distinct (map ConflictDetail.path conflicts)"
    and opts: "\<forall>c\<in>set conflicts. \<forall>p\<in>set patches.
             hash p \<in> set (options c) \<longrightarrow> Patch.path p = ConflictDetail.path c"
    and cust: "distinct (map (\<lambda>cr. Patch.path (patch cr)) customResolutions)"
    and fresh: "\<forall>cr\<in>set customResolutions. \<forall>p\<in>set patches.
             Patch.path (patch cr) \<noteq> Patch.path p"
  shows "distinct (map Patch.path
           (resolveConflicts patches conflicts resolutions customResolutions))"
proof (cases "conflicts = []")
  case True
  with nonconf show ?thesis by (simp add: resolveConflicts_def)
next
  case False
  let ?seg1 = "filter (\<lambda>p. Patch.path p \<notin> set (map ConflictDetail.path conflicts)) patches"
  let ?sel = "List.map_filter (chosenPatch patches resolutions) conflicts"
  let ?seg3 = "map patch customResolutions"
  have paths: "map Patch.path ?sel =
      map ConflictDetail.path (filter (\<lambda>c. chosenPatch patches resolutions c \<noteq> None) conflicts)"
    by (rule map_path_chosen[OF opts])
  have d2: "distinct (map Patch.path ?sel)"
    unfolding paths using confs by (rule distinct_map_filter)
  then have "distinct ?sel" by (simp add: distinct_map)
  then have seg2: "firstOccurrences ?sel = ?sel" by (rule firstOccurrences_distinct_id)
  have sub2: "set ?sel \<subseteq> set patches"
  proof
    fix p assume "p \<in> set ?sel"
    then obtain c where "chosenPatch patches resolutions c = Some p"
      unfolding set_map_filter by blast
    then show "p \<in> set patches" by (simp add: chosenPatch_props)
  qed
  have in2: "set (map Patch.path ?sel) \<subseteq> set (map ConflictDetail.path conflicts)"
    unfolding paths by auto
  have d3: "distinct (map Patch.path ?seg3)" using cust by (simp add: comp_def)
  have disj12: "set (map Patch.path ?seg1) \<inter> set (map Patch.path ?sel) = {}"
    using in2 by auto
  have fr: "Patch.path p \<notin> set (map Patch.path ?seg3)" if "p \<in> set patches" for p
  proof
    assume "Patch.path p \<in> set (map Patch.path ?seg3)"
    then obtain cr where "cr \<in> set customResolutions" "Patch.path (patch cr) = Patch.path p"
      by auto
    with fresh that show False by blast
  qed
  have disj13: "set (map Patch.path ?seg1) \<inter> set (map Patch.path ?seg3) = {}"
  proof -
    have "x \<notin> set (map Patch.path ?seg3)" if "x \<in> set (map Patch.path ?seg1)" for x
    proof -
      from that obtain p where "p \<in> set patches" "x = Patch.path p" by auto
      then show ?thesis using fr by blast
    qed
    then show ?thesis by blast
  qed
  have disj23: "set (map Patch.path ?sel) \<inter> set (map Patch.path ?seg3) = {}"
  proof -
    have "x \<notin> set (map Patch.path ?seg3)" if "x \<in> set (map Patch.path ?sel)" for x
    proof -
      from that sub2 obtain p where "p \<in> set patches" "x = Patch.path p" by auto
      then show ?thesis using fr by blast
    qed
    then show ?thesis by blast
  qed
  have "resolveConflicts patches conflicts resolutions customResolutions = ?seg1 @ ?sel @ ?seg3"
    using seg2 by (simp add: resolveConflicts_segments_aux[OF False])
  then show ?thesis
    using nonconf d2 d3 disj12 disj13 disj23 by (simp add: Int_Un_distrib)
qed

text \<open>
  The amended statement at the first example of the specification, with a custom patch for
  a path of its own: the merged list is the patch for \<open>/b\<close>, the one for \<open>/a\<close> with hash
  \<open>h1\<close> and the custom one for \<open>/d\<close>.
\<close>

theorem resolveConflicts_distinct_paths_witness:
  "distinct (map ConflictDetail.path [cA]) \<and>
   distinct (map (\<lambda>cr. Patch.path (patch cr)) [crD]) \<and>
   resolveConflicts [pA1, pA2, pB3] [cA] [] [crD] = [pB3, pA1, pD5] \<and>
   distinct (map Patch.path (resolveConflicts [pA1, pA2, pB3] [cA] [] [crD]))"
proof -
  have h1: "distinct (map Patch.path
      (filter (\<lambda>p. Patch.path p \<notin> set (map ConflictDetail.path [cA])) [pA1, pA2, pB3]))"
    by (simp add: pA1_def pA2_def pB3_def pD5_def cA_def crD_def)
  have h2: "distinct (map ConflictDetail.path [cA])" by simp
  have h3: "\<forall>c\<in>set [cA]. \<forall>p\<in>set [pA1, pA2, pB3].
      hash p \<in> set (options c) \<longrightarrow> Patch.path p = ConflictDetail.path c"
    by (simp add: pA1_def pA2_def pB3_def pD5_def cA_def crD_def)
  have h4: "distinct (map (\<lambda>cr. Patch.path (patch cr)) [crD])" by simp
  have h5: "\<forall>cr\<in>set [crD]. \<forall>p\<in>set [pA1, pA2, pB3]. Patch.path (patch cr) \<noteq> Patch.path p"
    by (simp add: pA1_def pA2_def pB3_def pD5_def cA_def crD_def)
  have out: "resolveConflicts [pA1, pA2, pB3] [cA] [] [crD] = [pB3, pA1, pD5]"
    by (simp add: resolveConflicts_def conflictStep_def findMatchingPatch_def Set_add_def
        pA1_def pA2_def pB3_def pD5_def cA_def crD_def)
  from resolveConflicts_distinct_paths[OF h1 h2 h3 h4 h5, of "[]"] h2 h4 out
  show ?thesis by simp
qed

text \<open>
  C1 as stated fails: in the first example of the specification, with a custom patch for
  the conflicting path \<open>/a\<close>, the merged list holds the selected patch for \<open>/a\<close> and
  the custom patch for \<open>/a\<close>.
\<close>

theorem resolveConflicts_duplicate_path:
  "resolveConflicts [pA1, pA2, pB3] [cA] [] [crA] = [pB3, pA1, patch crA] \<and>
   Patch.path pA1 = Patch.path (patch crA) \<and>
   \<not> distinct (map Patch.path (resolveConflicts [pA1, pA2, pB3] [cA] [] [crA]))"
  by (simp add: resolveConflicts_def conflictStep_def findMatchingPatch_def Set_add_def
      pA1_def pA2_def pB3_def cA_def crA_def)

section \<open>Pass-through without conflicts\<close>

text \<open>
  C2: with an empty conflicts list, \<open>resolveConflicts\<close> returns the input patch list
  unchanged (same elements, same order, same multiplicity), whatever the resolutions
  and the custom resolutions are.
\<close>

theorem resolveConflicts_no_conflicts:
  "resolveConflicts patches [] resolutions customResolutions = patches"
  by (simp add: resolveConflicts_def)

text \<open>A patch given twice is returned twice, and the custom resolution is ignored.\<close>

theorem resolveConflicts_no_conflicts_witness:
  "resolveConflicts [pA1, pA1, pB3] [] [rA2] [crA] = [pA1, pA1, pB3]"
  using resolveConflicts_no_conflicts[of "[pA1, pA1, pB3]" "[rA2]" "[crA]"] by simp

section \<open>A resolution outside the options\<close>

lemma find_first_split:
  "\<forall>q\<in>set pre. \<not> P q \<Longrightarrow> P p \<Longrightarrow> List.find P (pre @ p # post) = Some p"
  by (induction pre) auto

text \<open>
  C3 (as amended): for a conflict of the conflicts list with a non-empty options list, if
  the first entry of \<open>resolutions\<close> with the conflict's path (the one the lookup returns)
  selects a hash that is not among the conflict's options, then \<open>resolveConflicts\<close>
  selects for that conflict the first input patch whose hash is the first option
  \<open>options[0]\<close>, if some input patch has that hash, and no patch otherwise; that patch
  is not one the resolution names. The list returned is the non-conflict patches, the
  selected patches with that patch added at the conflict's turn, and the custom patches.
\<close>

theorem invalid_resolution_falls_back:
  assumes "List.find (\<lambda>res. ConflictResolution.path res = ConflictDetail.path conflict) resolutions
             = Some resolution"
    and "selectedHash resolution \<notin> set (options conflict)"
    and "options conflict \<noteq> []"
  shows "((\<exists>p\<in>set patches. hash p = options conflict ! 0) \<longrightarrow>
            (\<exists>pre p post.
               patches = pre @ p # post \<and> hash p = options conflict ! 0 \<and>
               (\<forall>q\<in>set pre. hash q \<noteq> options conflict ! 0) \<and>
               hash p \<noteq> selectedHash resolution \<and>
               conflictStep patches resolutions included conflict = Set_add included p \<and>
               resolveConflicts patches (before @ conflict # after) resolutions customResolutions =
                 filter (\<lambda>p. Patch.path p \<notin>
                            set (map ConflictDetail.path (before @ conflict # after))) patches @
                 foldl (conflictStep patches resolutions)
                   (Set_add (foldl (conflictStep patches resolutions) [] before) p) after @
                 map patch customResolutions \<and>
               p \<in> set (resolveConflicts patches (before @ conflict # after)
                          resolutions customResolutions))) \<and>
         ((\<forall>p\<in>set patches. hash p \<noteq> options conflict ! 0) \<longrightarrow>
            conflictStep patches resolutions included conflict = included \<and>
            resolveConflicts patches (before @ conflict # after) resolutions customResolutions =
              filter (\<lambda>p. Patch.path p \<notin>
                         set (map ConflictDetail.path (before @ conflict # after))) patches @
              foldl (conflictStep patches resolutions) [] (before @ after) @
              map patch customResolutions)"
proof -
  let ?h = "options conflict ! 0"
  let ?out = "resolveConflicts patches (before @ conflict # after) resolutions customResolutions"
  let ?nc = "filter (\<lambda>p. Patch.path p \<notin>
                        set (map ConflictDetail.path (before @ conflict # after))) patches"
  have h_opt: "?h \<in> set (options conflict)" using assms(3) by (cases "options conflict") auto
  have step: "conflictStep patches resolutions s conflict =
        (case List.find (\<lambda>p. hash p = ?h) patches of None \<Rightarrow> s | Some p \<Rightarrow> Set_add s p)" for s
    using assms by (simp add: conflictStep_def findMatchingPatch_def)
  have out: "?out = ?nc @
        foldl (conflictStep patches resolutions)
          (conflictStep patches resolutions
             (foldl (conflictStep patches resolutions) [] before) conflict) after @
        map patch customResolutions"
    by (simp add: resolveConflicts_def Let_def)
  have mono: "set s \<subseteq> set (foldl (conflictStep patches resolutions) s cs)" for s cs
    by (simp add: foldl_conflictStep set_foldl_Set_add)
  have hit: "\<exists>pre p post.
               patches = pre @ p # post \<and> hash p = ?h \<and>
               (\<forall>q\<in>set pre. hash q \<noteq> ?h) \<and>
               hash p \<noteq> selectedHash resolution \<and>
               conflictStep patches resolutions included conflict = Set_add included p \<and>
               ?out = ?nc @
                 foldl (conflictStep patches resolutions)
                   (Set_add (foldl (conflictStep patches resolutions) [] before) p) after @
                 map patch customResolutions \<and>
               p \<in> set ?out"
    if ex: "\<exists>p\<in>set patches. hash p = ?h"
  proof -
    from split_list_first_prop[OF ex] obtain pre p post where
      sp: "patches = pre @ p # post" "hash p = ?h" "\<forall>q\<in>set pre. hash q \<noteq> ?h"
      by blast
    then have f: "List.find (\<lambda>p. hash p = ?h) patches = Some p"
      by (simp add: find_first_split)
    have ne: "hash p \<noteq> selectedHash resolution" using sp(2) h_opt assms(2) by auto
    have st: "conflictStep patches resolutions s conflict = Set_add s p" for s
      by (simp add: step f)
    have o: "?out = ?nc @
                 foldl (conflictStep patches resolutions)
                   (Set_add (foldl (conflictStep patches resolutions) [] before) p) after @
                 map patch customResolutions"
      by (simp only: out st)
    have "p \<in> set (Set_add (foldl (conflictStep patches resolutions) [] before) p)"
      by (simp add: set_Set_add)
    with mono have "p \<in> set (foldl (conflictStep patches resolutions)
                   (Set_add (foldl (conflictStep patches resolutions) [] before) p) after)"
      by blast
    then have "p \<in> set ?out" by (simp only: o) simp
    with sp ne st o show ?thesis by blast
  qed
  have miss: "conflictStep patches resolutions included conflict = included \<and>
            ?out = ?nc @ foldl (conflictStep patches resolutions) [] (before @ after) @
              map patch customResolutions"
    if no: "\<forall>p\<in>set patches. hash p \<noteq> ?h"
  proof -
    from no have f: "List.find (\<lambda>p. hash p = ?h) patches = None"
      by (simp add: find_None_iff)
    have st: "conflictStep patches resolutions s conflict = s" for s
      by (simp add: step f)
    show ?thesis by (simp add: out st)
  qed
  from hit miss show ?thesis by blast
qed

text \<open>
  The resolution selects \<open>h4\<close>, the hash of an input patch for \<open>/a\<close> but no option of
  the conflict: the patch with the first option \<open>h1\<close> is merged, the one with \<open>h4\<close> is
  not.
\<close>

theorem invalid_resolution_falls_back_witness:
  "List.find (\<lambda>res. ConflictResolution.path res = ConflictDetail.path cA) [rA4] = Some rA4 \<and>
   selectedHash rA4 \<notin> set (options cA) \<and> options cA \<noteq> [] \<and>
   pA1 \<in> set [pA1, pA2, pB3, pA4] \<and> hash pA1 = options cA ! 0 \<and>
   hash pA4 = selectedHash rA4 \<and>
   conflictStep [pA1, pA2, pB3, pA4] [rA4] [] cA = [pA1] \<and>
   resolveConflicts [pA1, pA2, pB3, pA4] [cA] [rA4] [] = [pB3, pA1] \<and>
   pA4 \<notin> set (resolveConflicts [pA1, pA2, pB3, pA4] [cA] [rA4] [])"
proof -
  have h1: "List.find (\<lambda>res. ConflictResolution.path res = ConflictDetail.path cA) [rA4] = Some rA4"
    by (simp add: cA_def rA4_def)
  have h2: "selectedHash rA4 \<notin> set (options cA)" by (simp add: cA_def rA4_def)
  have h3: "options cA \<noteq> []" by (simp add: cA_def)
  have e: "pA1 \<in> set [pA1, pA2, pB3, pA4] \<and> hash pA1 = options cA ! 0 \<and>
      hash pA4 = selectedHash rA4"
    by (simp add: pA1_def pA4_def cA_def rA4_def)
  have s: "conflictStep [pA1, pA2, pB3, pA4] [rA4] [] cA = [pA1]"
    by (simp add: conflictStep_def findMatchingPatch_def Set_add_def
        pA1_def pA2_def pB3_def pA4_def cA_def rA4_def)
  have o: "resolveConflicts [pA1, pA2, pB3, pA4] [cA] [rA4] [] = [pB3, pA1]"
    by (simp add: resolveConflicts_def conflictStep_def findMatchingPatch_def Set_add_def
        pA1_def pA2_def pB3_def pA4_def cA_def rA4_def)
  have n: "pA4 \<noteq> pB3" "pA4 \<noteq> pA1" by (simp_all add: pA1_def pB3_def pA4_def)
  from invalid_resolution_falls_back[OF h1 h2 h3, of "[pA1, pA2, pB3, pA4]" "[]" "[]" "[]" "[]"]
    h1 h2 h3 e s o n
  show ?thesis by simp
qed

text \<open>
  C3 as stated fails when a second resolution has the conflict's path: \<open>rA9\<close> matches the
  conflict and selects \<open>h9\<close>, no option of it, but the lookup returns \<open>rA2\<close>, listed
  first, and the patch with hash \<open>h2\<close> is merged, not the one with the first option
  \<open>h1\<close>.
\<close>

theorem later_invalid_resolution_ignored:
  "rA9 \<in> set [rA2, rA9] \<and> ConflictResolution.path rA9 = ConflictDetail.path cA \<and>
   selectedHash rA9 \<notin> set (options cA) \<and> options cA \<noteq> [] \<and>
   pA1 \<in> set [pA1, pA2, pB3] \<and> hash pA1 = options cA ! 0 \<and>
   conflictStep [pA1, pA2, pB3] [rA2, rA9] [] cA = [pA2] \<and>
   resolveConflicts [pA1, pA2, pB3] [cA] [rA2, rA9] [] = [pB3, pA2] \<and>
   pA1 \<notin> set (resolveConflicts [pA1, pA2, pB3] [cA] [rA2, rA9] [])"
  by (simp add: resolveConflicts_def conflictStep_def findMatchingPatch_def Set_add_def
      pA1_def pA2_def pB3_def cA_def rA2_def rA9_def)

section \<open>Unresolved hashes\<close>

text \<open>
  C4: when the flattened patch list and the conflicts list are both non-empty, a hash is in
  the returned \<open>unresolvedConflicts\<close> if and only if it is an option of some conflict
  whose path is the path of no entry of \<open>resolutions\<close>; so every option of such a
  conflict is there. The merged list returned beside it is the one of
  \<open>resolveConflicts\<close>, first-option defaults included.
\<close>

theorem unresolvedConflicts_iff:
  assumes "concat patches \<noteq> []" and "conflicts \<noteq> []"
  shows "(h \<in> set (unresolvedConflicts
                    (generateResolvedPatch patches conflicts resolutions customResolutions)) \<longleftrightarrow>
          (\<exists>c\<in>set conflicts. h \<in> set (options c) \<and>
             \<not> (\<exists>r\<in>set resolutions. ConflictResolution.path r = ConflictDetail.path c))) \<and>
         resolvedPatches (generateResolvedPatch patches conflicts resolutions customResolutions) =
           resolveConflicts (concat patches) conflicts resolutions customResolutions"
proof -
  from assms have "generateResolvedPatch patches conflicts resolutions customResolutions =
      \<lparr>unresolvedConflicts = foldl (unresolvedStep resolutions) [] conflicts,
       resolvedPatches = resolveConflicts (concat patches) conflicts resolutions customResolutions\<rparr>"
    by (auto simp: generateResolvedPatch_def Let_def)
  then show ?thesis by (simp add: set_foldl_unresolvedStep)
qed

text \<open>
  Without resolutions, both options of the conflict are reported unresolved, \<open>h1\<close> too,
  whose patch the merge includes by default.
\<close>

theorem unresolvedConflicts_iff_witness:
  "concat [[pA1], [pA2, pB3]] \<noteq> [] \<and> [cA] \<noteq> [] \<and>
   ''h1'' \<in> set (unresolvedConflicts (generateResolvedPatch [[pA1], [pA2, pB3]] [cA] [] [])) \<and>
   ''h2'' \<in> set (unresolvedConflicts (generateResolvedPatch [[pA1], [pA2, pB3]] [cA] [] [])) \<and>
   ''h3'' \<notin> set (unresolvedConflicts (generateResolvedPatch [[pA1], [pA2, pB3]] [cA] [] [])) \<and>
   resolvedPatches (generateResolvedPatch [[pA1], [pA2, pB3]] [cA] [] []) = [pB3, pA1]"
proof -
  have a: "concat [[pA1], [pA2, pB3]] \<noteq> []" by simp
  have b: "[cA] \<noteq> []" by simp
  have r: "resolveConflicts [pA1, pA2, pB3] [cA] [] [] = [pB3, pA1]"
    by (simp add: resolveConflicts_def conflictStep_def findMatchingPatch_def Set_add_def
        pA1_def pA2_def pB3_def cA_def)
  from unresolvedConflicts_iff[OF a b, of "''h1''" "[]" "[]"]
    unresolvedConflicts_iff[OF a b, of "''h2''" "[]" "[]"]
    unresolvedConflicts_iff[OF a b, of "''h3''" "[]" "[]"] r
  show ?thesis by (simp add: pA1_def pA2_def pB3_def cA_def)
qed

section \<open>Default resolutions\<close>

text \<open>
  C5: \<open>initializeResolutions\<close> returns, in the order of the conflicts list, exactly one
  resolution for each conflict with non-empty options, with the conflict's path and its
  first option \<open>options[0]\<close>, and none for a conflict with empty options.
\<close>

theorem initializeResolutions_spec:
  "initializeResolutions conflicts = defaultResolutions_spec conflicts"
  by (induction conflicts) (auto simp: initializeResolutions_def split: list.splits)

theorem initializeResolutions_spec_witness:
  "initializeResolutions [cC0, cA, cA21] = [rA1, rA2]"
  using initializeResolutions_spec[of "[cC0, cA, cA21]"]
  by (simp add: cA_def cA21_def cC0_def rA1_def rA2_def)

section \<open>The three segments of the merged list\<close>



section \<open>Conflicts that contribute nothing\<close>

text \<open>
  C7: a conflict whose matching resolution selects a hash that is among the conflict's
  options but is the hash of no input patch, and a conflict with empty options, add no
  patch: the round of the loop for it leaves \<open>includedPatches\<close> as it was (no first
  option is tried after the failed lookup), and the selected patches in the list
  \<open>resolveConflicts\<close> returns are those of the other conflicts. No exception can be
  raised: the functions are total, and the two reads of the source that could fail,
  \<open>resolution.selectedHash\<close> and \<open>options[0]\<close>, are made only behind their guards.
\<close>

theorem conflict_contributes_nothing:
  assumes "(List.find (\<lambda>res. ConflictResolution.path res = ConflictDetail.path conflict)
              resolutions = Some resolution \<and>
            selectedHash resolution \<in> set (options conflict) \<and>
            (\<forall>p\<in>set patches. hash p \<noteq> selectedHash resolution))
           \<or> options conflict = []"
  shows "conflictStep patches resolutions included conflict = included \<and>
         resolveConflicts patches (before @ conflict # after) resolutions customResolutions =
           filter (\<lambda>p. Patch.path p \<notin> set (map ConflictDetail.path (before @ conflict # after)))
             patches @
           foldl (conflictStep patches resolutions) [] (before @ after) @
           map patch customResolutions"
proof -
  have step: "conflictStep patches resolutions s conflict = s" for s
    using assms
  proof
    assume a: "List.find (\<lambda>res. ConflictResolution.path res = ConflictDetail.path conflict)
                 resolutions = Some resolution \<and>
               selectedHash resolution \<in> set (options conflict) \<and>
               (\<forall>p\<in>set patches. hash p \<noteq> selectedHash resolution)"
    then have "findMatchingPatch patches (selectedHash resolution) = None"
      by (auto simp: findMatchingPatch_def find_None_iff)
    with a show ?thesis by (simp add: conflictStep_def)
  next
    assume "options conflict = []"
    then show ?thesis by (simp add: conflictStep_def Let_def split: option.splits)
  qed
  have "foldl (conflictStep patches resolutions) [] (before @ conflict # after) =
        foldl (conflictStep patches resolutions) [] (before @ after)"
    by (simp add: step)
  then show ?thesis
    by (simp add: step resolveConflicts_def Let_def)
qed

text \<open>
  The resolution selects the option \<open>h2\<close>, for which the input has no patch: nothing is
  merged for \<open>/a\<close>, not the patch of the first option \<open>h1\<close> either. The second conflict
  has no options.
\<close>

theorem conflict_contributes_nothing_witness:
  "List.find (\<lambda>res. ConflictResolution.path res = ConflictDetail.path cA) [rA2] = Some rA2 \<and>
   selectedHash rA2 \<in> set (options cA) \<and> options cC0 = [] \<and>
   conflictStep [pA1, pB3] [rA2] [] cA = [] \<and>
   conflictStep [pA1, pB3] [rA2] [] cC0 = [] \<and>
   resolveConflicts [pA1, pB3] [cA, cC0] [rA2] [] = [pB3]"
proof -
  have a: "(List.find (\<lambda>res. ConflictResolution.path res = ConflictDetail.path cA) [rA2]
              = Some rA2 \<and>
            selectedHash rA2 \<in> set (options cA) \<and>
            (\<forall>p\<in>set [pA1, pB3]. hash p \<noteq> selectedHash rA2))
           \<or> options cA = []"
    by (simp add: pA1_def pB3_def cA_def cC0_def rA2_def)
  have b: "(List.find (\<lambda>res. ConflictResolution.path res = ConflictDetail.path cC0) [rA2]
              = Some rA2 \<and>
            selectedHash rA2 \<in> set (options cC0) \<and>
            (\<forall>p\<in>set [pA1, pB3]. hash p \<noteq> selectedHash rA2))
           \<or> options cC0 = []"
    by (simp add: pA1_def pB3_def cA_def cC0_def rA2_def)
  have f: "filter (\<lambda>p. Patch.path p \<notin> set (map ConflictDetail.path [cA, cC0])) [pA1, pB3] = [pB3]"
    by (simp add: pA1_def pB3_def cA_def cC0_def rA2_def)
  have c: "conflictStep [pA1, pB3] [rA2] [] cC0 = []"
    using conflict_contributes_nothing[OF b, of "[]" "[]" "[]" "[]"] by simp
  from conflict_contributes_nothing[OF a, of "[]" "[]" "[cC0]" "[]"] c f
  show ?thesis by (simp add: pA1_def pB3_def cA_def cC0_def rA2_def)
qed

section \<open>Empty input and empty conflicts in \<open>generateResolvedPatch\<close>\<close>

text \<open>
  C8: when the flattened patch groups are empty, \<open>generateResolvedPatch\<close> returns an
  empty \<open>unresolvedConflicts\<close> and an empty \<open>resolvedPatches\<close>, whatever the conflicts,
  resolutions and custom resolutions are; when the flattened list is non-empty and there
  is no conflict, it returns the flattened list as \<open>resolvedPatches\<close> and an empty
  \<open>unresolvedConflicts\<close>.
\<close>

theorem generateResolvedPatch_trivial:
  "(concat patches = [] \<longrightarrow>
      generateResolvedPatch patches conflicts resolutions customResolutions =
        \<lparr>unresolvedConflicts = [], resolvedPatches = []\<rparr>) \<and>
   (concat patches \<noteq> [] \<longrightarrow>
      generateResolvedPatch patches [] resolutions customResolutions =
        \<lparr>unresolvedConflicts = [], resolvedPatches = concat patches\<rparr>)"
  by (auto simp: generateResolvedPatch_def Let_def)

text \<open>
  Two empty groups with an unresolved conflict and a custom resolution give the empty
  result; two groups without conflicts are returned flattened.
\<close>

theorem generateResolvedPatch_trivial_witness:
  "concat [[], []] = ([] :: nat Patch list) \<and>
   generateResolvedPatch [[], []] [cA] [] [crA] =
      \<lparr>unresolvedConflicts = [], resolvedPatches = []\<rparr> \<and>
   concat [[pA1], [pA2, pB3]] \<noteq> [] \<and>
   generateResolvedPatch [[pA1], [pA2, pB3]] [] [rA2] [crA] =
      \<lparr>unresolvedConflicts = [], resolvedPatches = [pA1, pA2, pB3]\<rparr>"
  using generateResolvedPatch_trivial [of "[[], []]" "[cA]" "[]" "[crA]"]
    generateResolvedPatch_trivial [of "[[pA1], [pA2, pB3]]" "[]" "[rA2]" "[crA]"]
  by simp

section \<open>Feeding the resolutions back\<close>

text \<open>
  C9 (as amended): if the conflicts have pairwise distinct paths and every resolution that
  is the matching resolution of a conflict and selects one of that conflict's options
  selects the hash of some input patch, then \<open>resolveConflicts\<close> with the resolutions
  fed back from the merge (for each conflict, the hash of the patch the merge selected
  for it) returns the list the first merge returned.
\<close>

theorem resolveConflicts_feedback_stable:
  assumes "distinct (map ConflictDetail.path conflicts)"
    and "\<forall>c\<in>set conflicts. \<forall>r.
           List.find (\<lambda>res. ConflictResolution.path res = ConflictDetail.path c) resolutions = Some r
           \<longrightarrow> selectedHash r \<in> set (options c)
           \<longrightarrow> (\<exists>p\<in>set patches. hash p = selectedHash r)"
  shows "resolveConflicts patches conflicts
           (feedbackResolutions patches conflicts resolutions) customResolutions =
         resolveConflicts patches conflicts resolutions customResolutions"
proof (cases "conflicts = []")
  case True
  then show ?thesis by (simp add: resolveConflicts_def)
next
  case False
  have "List.map_filter (chosenPatch patches (feedbackResolutions patches conflicts resolutions))
          conflicts =
        List.map_filter (chosenPatch patches resolutions) conflicts"
  proof (rule map_filter_cong_set)
    fix c assume cin: "c \<in> set conflicts"
    show "chosenPatch patches (feedbackResolutions patches conflicts resolutions) c =
          chosenPatch patches resolutions c"
    proof (rule chosenPatch_feedback[OF assms(1) cin])
      fix r
      assume "List.find (\<lambda>res. ConflictResolution.path res = ConflictDetail.path c) resolutions
                = Some r"
        and "selectedHash r \<in> set (options c)"
      with assms(2) cin obtain p where "p \<in> set patches" "hash p = selectedHash r" by blast
      then show "findMatchingPatch patches (selectedHash r) \<noteq> None"
        by (auto simp: findMatchingPatch_def find_None_iff)
    qed
  qed
  with False show ?thesis by (simp add: resolveConflicts_segments_aux)
qed

text \<open>
  The resolution selects \<open>h9\<close>, no option of the conflict, so the merge selects the
  patch of the first option \<open>h1\<close>; the resolution fed back selects \<open>h1\<close> and the merge
  is the same.
\<close>

theorem resolveConflicts_feedback_stable_witness:
  "distinct (map ConflictDetail.path [cA]) \<and>
   feedbackResolutions [pA1, pA2, pB3] [cA] [rA9] = [rA1] \<and>
   resolveConflicts [pA1, pA2, pB3] [cA] [rA9] [crA] = [pB3, pA1, patch crA] \<and>
   resolveConflicts [pA1, pA2, pB3] [cA] (feedbackResolutions [pA1, pA2, pB3] [cA] [rA9]) [crA] =
     resolveConflicts [pA1, pA2, pB3] [cA] [rA9] [crA]"
proof -
  have h1: "distinct (map ConflictDetail.path [cA])" by simp
  have h2: "\<forall>c\<in>set [cA]. \<forall>r.
           List.find (\<lambda>res. ConflictResolution.path res = ConflictDetail.path c) [rA9] = Some r
           \<longrightarrow> selectedHash r \<in> set (options c)
           \<longrightarrow> (\<exists>p\<in>set [pA1, pA2, pB3]. hash p = selectedHash r)"
    by (simp add: pA1_def pA2_def pB3_def cA_def rA1_def rA9_def crA_def)
  have f: "feedbackResolutions [pA1, pA2, pB3] [cA] [rA9] = [rA1]"
    by (simp add: feedbackResolutions_def chosenPatch_def chosenHash_def firstOption_def
        findMatchingPatch_def pA1_def pA2_def pB3_def cA_def rA1_def rA9_def crA_def)
  have out: "resolveConflicts [pA1, pA2, pB3] [cA] [rA9] [crA] = [pB3, pA1, patch crA]"
    by (simp add: resolveConflicts_def conflictStep_def findMatchingPatch_def Set_add_def
        pA1_def pA2_def pB3_def cA_def rA1_def rA9_def crA_def)
  from resolveConflicts_feedback_stable[OF h1 h2, of "[crA]"] h1 f out
  show ?thesis by simp
qed

text \<open>
  C9 as stated fails: the resolution selects the option \<open>h2\<close>, for which the input has
  no patch, so the merge selects no patch for \<open>/a\<close> and returns the empty list; no
  resolution can be fed back for \<open>/a\<close>, and the second merge selects the patch of the
  first option \<open>h1\<close>.
\<close>

theorem resolveConflicts_feedback_unstable:
  "resolveConflicts [pA1] [cA] [rA2] [] = [] \<and>
   feedbackResolutions [pA1] [cA] [rA2] = [] \<and>
   resolveConflicts [pA1] [cA] (feedbackResolutions [pA1] [cA] [rA2]) [] = [pA1] \<and>
   resolveConflicts [pA1] [cA] (feedbackResolutions [pA1] [cA] [rA2]) [] \<noteq>
     resolveConflicts [pA1] [cA] [rA2] []"
proof -
  have a: "resolveConflicts [pA1] [cA] [rA2] [] = []"
    by (simp add: resolveConflicts_def conflictStep_def findMatchingPatch_def Set_add_def
        pA1_def cA_def rA2_def)
  have b: "feedbackResolutions [pA1] [cA] [rA2] = []"
    by (simp add: feedbackResolutions_def chosenPatch_def chosenHash_def firstOption_def
        findMatchingPatch_def pA1_def cA_def rA2_def)
  have c: "resolveConflicts [pA1] [cA] [] [] = [pA1]"
    by (simp add: resolveConflicts_def conflictStep_def findMatchingPatch_def Set_add_def
        pA1_def cA_def rA2_def)
  from a b c show ?thesis by simp
qed

section \<open>Patches at conflict paths\<close>

text \<open>
  C10: with a non-empty conflicts list, a patch whose path is the path of some conflict is
  in the list \<open>resolveConflicts\<close> returns if and only if it is the patch selected for
  some conflict (found by the hash of a valid resolution or of the first option) or the
  patch of a custom resolution. So an input patch at a conflict path that is neither is
  left out; in particular one whose hash is an option of no conflict, unless it is a
  custom patch.
\<close>

theorem conflict_path_patches_in_output:
  assumes "conflicts \<noteq> []"
    and "Patch.path p \<in> set (map ConflictDetail.path conflicts)"
  shows "(p \<in> set (resolveConflicts patches conflicts resolutions customResolutions) \<longleftrightarrow>
           (\<exists>c\<in>set conflicts. chosenPatch patches resolutions c = Some p) \<or>
           p \<in> set (map patch customResolutions)) \<and>
         ((\<forall>c\<in>set conflicts. hash p \<notin> set (options c)) \<and>
          p \<notin> set (map patch customResolutions) \<longrightarrow>
            p \<notin> set (resolveConflicts patches conflicts resolutions customResolutions))"
proof -
  have iff: "p \<in> set (resolveConflicts patches conflicts resolutions customResolutions) \<longleftrightarrow>
           (\<exists>c\<in>set conflicts. chosenPatch patches resolutions c = Some p) \<or>
           p \<in> set (map patch customResolutions)"
    using assms(2)
    by (simp add: resolveConflicts_segments_aux[OF assms(1)] set_firstOccurrences set_map_filter)
  moreover have "\<not> (\<exists>c\<in>set conflicts. chosenPatch patches resolutions c = Some p)"
    if "\<forall>c\<in>set conflicts. hash p \<notin> set (options c)"
    using that chosenPatch_props by blast
  ultimately show ?thesis by blast
qed

text \<open>
  Of the three input patches at the conflict path \<open>/a\<close>, the one with the first option
  \<open>h1\<close> is merged; the one with the other option \<open>h2\<close> and the one with \<open>h4\<close>, no
  option of the conflict, are not.
\<close>

theorem conflict_path_patches_in_output_witness:
  "[cA] \<noteq> [] \<and> Patch.path pA1 \<in> set (map ConflictDetail.path [cA]) \<and>
   Patch.path pA2 \<in> set (map ConflictDetail.path [cA]) \<and>
   Patch.path pA4 \<in> set (map ConflictDetail.path [cA]) \<and>
   pA1 \<in> set (resolveConflicts [pA1, pA2, pB3, pA4] [cA] [] [crA]) \<and>
   pA2 \<notin> set (resolveConflicts [pA1, pA2, pB3, pA4] [cA] [] [crA]) \<and>
   pA4 \<notin> set (resolveConflicts [pA1, pA2, pB3, pA4] [cA] [] [crA])"
proof -
  have ne: "[cA] \<noteq> []" by simp
  have p1: "Patch.path pA1 \<in> set (map ConflictDetail.path [cA])" by (simp add: pA1_def pA2_def pB3_def pA4_def cA_def crA_def)
  have p2: "Patch.path pA2 \<in> set (map ConflictDetail.path [cA])" by (simp add: pA1_def pA2_def pB3_def pA4_def cA_def crA_def)
  have p4: "Patch.path pA4 \<in> set (map ConflictDetail.path [cA])" by (simp add: pA1_def pA2_def pB3_def pA4_def cA_def crA_def)
  have c: "chosenPatch [pA1, pA2, pB3, pA4] [] cA = Some pA1"
    by (simp add: chosenPatch_def chosenHash_def firstOption_def findMatchingPatch_def
        pA1_def pA2_def pB3_def pA4_def cA_def crA_def)
  have n2: "pA1 \<noteq> pA2" "pA2 \<noteq> patch crA" "pA1 \<noteq> pA4"
    by (simp_all add: pA1_def pA2_def pB3_def pA4_def cA_def crA_def)
  have n4: "(\<forall>c\<in>set [cA]. hash pA4 \<notin> set (options c)) \<and> pA4 \<notin> set (map patch [crA])"
    by (simp add: pA1_def pA2_def pB3_def pA4_def cA_def crA_def)
  from conflict_path_patches_in_output[OF ne p1, of "[pA1, pA2, pB3, pA4]" "[]" "[crA]"]
    conflict_path_patches_in_output[OF ne p2, of "[pA1, pA2, pB3, pA4]" "[]" "[crA]"]
    conflict_path_patches_in_output[OF ne p4, of "[pA1, pA2, pB3, pA4]" "[]" "[crA]"]
    p1 p2 p4 c n2 n4
  show ?thesis by simp
qed

end
